theory Spec2Isabelle
  imports Main "HOL-Library.Word" "HOL-Library.Sublist"
begin

section \<open>The key generator of \<open>tools/generate_key.py\<close>\<close>

text \<open>
  The script has one function, \<open>generate_encryption_key(length=32)\<close>. It draws
  \<open>length\<close> bytes from \<open>secrets.token_bytes\<close>, encodes them with
  \<open>base64.b64encode\<close>, prints two lines, and, when a file \<open>.env\<close> exists one directory
  above the script's directory and holds the placeholder, rewrites that file with the
  placeholder replaced. The library functions it calls are modelled here after their
  documented behaviour; the function itself is translated statement by statement.
\<close>

subsection \<open>Bytes and base64 (the library's \<open>b64encode\<close>)\<close>

type_synonym byte = "8 word"

definition b64_alphabet :: string where
  "b64_alphabet = ''ABCDEFGHIJKLMNOPQRSTUVWXYZabcdefghijklmnopqrstuvwxyz0123456789+/''"

definition b64_char :: "nat \<Rightarrow> char" where
  "b64_char n = b64_alphabet ! n"

text \<open>
  Three bytes give four characters of six bits each; a last group of one or two bytes is
  filled with zero bits and padded with \<open>=\<close> to four characters (RFC 4648, section 4).
\<close>

fun b64encode :: "byte list \<Rightarrow> string" where
  "b64encode [] = []"
| "b64encode [a] =
     [b64_char (unat a div 4), b64_char (unat a mod 4 * 16), CHR ''='', CHR ''='']"
| "b64encode [a, b] =
     [b64_char (unat a div 4), b64_char (unat a mod 4 * 16 + unat b div 16),
      b64_char (unat b mod 16 * 4), CHR ''='']"
| "b64encode (a # b # c # rest) =
     [b64_char (unat a div 4), b64_char (unat a mod 4 * 16 + unat b div 16),
      b64_char (unat b mod 16 * 4 + unat c div 64), b64_char (unat c mod 64)]
     @ b64encode rest"

text \<open>
  The decoder of RFC 4648 with padding, the inverse the key's consumer applies: groups of
  four characters of the alphabet, the last group possibly ending in \<open>=\<close> or \<open>==\<close>;
  anything else is rejected.
\<close>

fun index_of :: "'a \<Rightarrow> 'a list \<Rightarrow> nat option" where
  "index_of x [] = None"
| "index_of x (y # ys) =
     (if x = y then Some 0 else map_option Suc (index_of x ys))"

definition b64_value :: "char \<Rightarrow> nat option" where
  "b64_value c = index_of c b64_alphabet"

fun b64decode :: "string \<Rightarrow> byte list option" where
  "b64decode [] = Some []"
| "b64decode (c0 # c1 # c2 # c3 # rest) =
     (if rest = [] \<and> c2 = CHR ''='' \<and> c3 = CHR ''='' then
        (case (b64_value c0, b64_value c1) of
           (Some s0, Some s1) \<Rightarrow> Some [of_nat (s0 * 4 + s1 div 16)]
         | _ \<Rightarrow> None)
      else if rest = [] \<and> c3 = CHR ''='' then
        (case (b64_value c0, b64_value c1, b64_value c2) of
           (Some s0, Some s1, Some s2) \<Rightarrow>
             Some [of_nat (s0 * 4 + s1 div 16), of_nat (s1 mod 16 * 16 + s2 div 4)]
         | _ \<Rightarrow> None)
      else
        (case (b64_value c0, b64_value c1, b64_value c2, b64_value c3) of
           (Some s0, Some s1, Some s2, Some s3) \<Rightarrow>
             (case b64decode rest of
                None \<Rightarrow> None
              | Some bs \<Rightarrow>
                  Some (of_nat (s0 * 4 + s1 div 16) # of_nat (s1 mod 16 * 16 + s2 div 4)
                        # of_nat (s2 mod 4 * 64 + s3) # bs))
         | _ \<Rightarrow> None))"
| "b64decode _ = None"

subsection \<open>Strings: \<open>in\<close> and \<open>str.replace\<close>\<close>

text \<open>\<open>sub in s\<close>: some suffix of \<open>s\<close> starts with \<open>sub\<close>.\<close>

fun str_contains :: "string \<Rightarrow> string \<Rightarrow> bool" where
  "str_contains sub [] = (sub = [])"
| "str_contains sub (c # cs) = (prefix sub (c # cs) \<or> str_contains sub cs)"

text \<open>
  \<open>s.replace(old, new)\<close> scans from the left: where \<open>old\<close> starts, \<open>new\<close> is put
  out and the scan goes on behind the occurrence; any other character is copied. With an
  empty \<open>old\<close>, Python puts \<open>new\<close> before every character and at the end.
\<close>

function str_replace :: "string \<Rightarrow> string \<Rightarrow> string \<Rightarrow> string" where
  "str_replace old new [] = (if old = [] then new else [])"
| "str_replace old new (c # cs) =
     (if old = [] then new @ c # str_replace old new cs
      else if prefix old (c # cs) then new @ str_replace old new (drop (length old) (c # cs))
      else c # str_replace old new cs)"
  by pat_completeness auto
termination
  by (relation "measure (\<lambda>(old, new, s). length s)") auto

subsection \<open>Paths (\<open>posixpath\<close>)\<close>

text \<open>
  \<open>dirname\<close> keeps everything up to the last \<open>/\<close> and strips the trailing slashes of
  that head unless the head is made of slashes only. \<open>join\<close> restarts at an absolute
  second argument and otherwise puts one \<open>/\<close> between the two unless the first is empty
  or already ends in one.
\<close>

definition dirname :: "string \<Rightarrow> string" where
  "dirname p =
     (let head = rev (dropWhile (\<lambda>c. c \<noteq> CHR ''/'') (rev p))
      in if head \<noteq> [] \<and> head \<noteq> replicate (length head) (CHR ''/'')
         then rev (dropWhile (\<lambda>c. c = CHR ''/'') (rev head))
         else head)"

definition path_join :: "string \<Rightarrow> string \<Rightarrow> string" where
  "path_join a b =
     (if prefix ''/'' b then b
      else if a = [] \<or> last a = CHR ''/'' then a @ b
      else a @ ''/'' @ b)"

text \<open>
  \<open>os.path.abspath(__file__)\<close> is an input of the model: \<open>script\<close> is the absolute,
  normalised path of \<open>generate_key.py\<close>.
\<close>

definition env_path :: "string \<Rightarrow> string" where
  "env_path script = path_join (dirname (dirname script)) ''.env''"

text \<open>An absolute normalised path, from its components below the root.\<close>

definition abs_path :: "string list \<Rightarrow> string" where
  "abs_path cs = (if cs = [] then ''/'' else concat (map (\<lambda>c. CHR ''/'' # c) cs))"

text \<open>The components of a normalised path are not empty and hold no separator.\<close>

definition valid_components :: "string list \<Rightarrow> bool" where
  "valid_components cs = list_all (\<lambda>c. c \<noteq> [] \<and> CHR ''/'' \<notin> set c) cs"

text \<open>
  \<open>abspath\<close> keeps a path that starts with exactly two slashes as it is; \<open>rooted n cs\<close>
  is the path with \<open>n\<close> more leading slashes than \<open>abs_path cs\<close>.
\<close>

definition rooted :: "nat \<Rightarrow> string list \<Rightarrow> string" where
  "rooted n cs = replicate n (CHR ''/'') @ abs_path cs"

subsection \<open>The world the function runs in\<close>

text \<open>
  The file system maps a path to what is there: a text file with its content, as text
  mode reads and writes it, or a directory. Standard output is the list of the lines
  printed so far. \<open>writes\<close> records every write to a file, in order, so that "no write
  happens" can be stated.
\<close>

datatype node = File string | Dir

datatype py_error = ValueError | FileNotFoundError | IsADirectoryError

record world =
  files :: "string \<rightharpoonup> node"
  stdout :: "string list"
  writes :: "(string \<times> string) list"

definition print_line :: "string \<Rightarrow> world \<Rightarrow> world" where
  "print_line l w = w\<lparr>stdout := stdout w @ [l]\<rparr>"

definition path_exists :: "string \<Rightarrow> world \<Rightarrow> bool" where
  "path_exists p w = (files w p \<noteq> None)"

definition read_file :: "string \<Rightarrow> world \<Rightarrow> py_error + string" where
  "read_file p w =
     (case files w p of
        None \<Rightarrow> Inl FileNotFoundError
      | Some Dir \<Rightarrow> Inl IsADirectoryError
      | Some (File t) \<Rightarrow> Inr t)"

definition write_file :: "string \<Rightarrow> string \<Rightarrow> world \<Rightarrow> py_error + world" where
  "write_file p t w =
     (case files w p of
        Some Dir \<Rightarrow> Inl IsADirectoryError
      | _ \<Rightarrow> Inr (w\<lparr>files := (files w)(p \<mapsto> File t), writes := writes w @ [(p, t)]\<rparr>))"

text \<open>
  \<open>secrets.token_bytes(n)\<close> returns \<open>n\<close> bytes of the operating system's random source
  and raises \<open>ValueError\<close> for a negative \<open>n\<close>. The source is an input of the model:
  \<open>rnd i\<close> is the \<open>i\<close>-th byte it delivers to this call.
\<close>

definition token_bytes :: "(nat \<Rightarrow> byte) \<Rightarrow> int \<Rightarrow> py_error + byte list" where
  "token_bytes rnd n = (if n < 0 then Inl ValueError else Inr (map rnd [0..<nat n]))"

subsection \<open>\<open>generate_encryption_key\<close>\<close>

definition placeholder :: string where
  "placeholder = ''ENCRYPTION_KEY=replace_with_generated_key''"

definition key_line :: "string \<Rightarrow> string" where
  "key_line key_b64 = ''Generated encryption key: '' @ key_b64"

definition advice_line :: string where
  "advice_line = ''Store this key securely and add it to your .env file as ENCRYPTION_KEY''"

definition updated_line :: string where
  "updated_line = ''Updated .env file with the new encryption key''"

text \<open>
  The function returns the world it leaves behind together with its outcome: the key, or
  the exception that ended it. Each statement of the source is one line here.
\<close>

definition generate_encryption_key ::
  "string \<Rightarrow> (nat \<Rightarrow> byte) \<Rightarrow> int \<Rightarrow> world \<Rightarrow> world \<times> (py_error + string)" where
  "generate_encryption_key script rnd len w =
     (case token_bytes rnd len of
        Inl e \<Rightarrow> (w, Inl e)
      | Inr key_bytes \<Rightarrow>
          let key_b64 = b64encode key_bytes;
              w1 = print_line (key_line key_b64) w;
              w2 = print_line advice_line w1;
              p = env_path script
          in if path_exists p w2 then
               (case read_file p w2 of
                  Inl e \<Rightarrow> (w2, Inl e)
                | Inr env_content \<Rightarrow>
                    if str_contains placeholder env_content then
                      (case write_file p
                              (str_replace placeholder (''ENCRYPTION_KEY='' @ key_b64) env_content)
                              w2 of
                         Inl e \<Rightarrow> (w2, Inl e)
                       | Inr w3 \<Rightarrow> (print_line updated_line w3, Inr key_b64))
                    else (w2, Inr key_b64))
             else (w2, Inr key_b64))"

subsection \<open>Concrete runs\<close>

text \<open>
  A script installed as \<open>/srv/telegrambot/tools/generate_key.py\<close>, a world whose only
  file is \<open>/srv/telegrambot/.env\<close>, a random source that delivers the bytes
  \<open>AD EA 65\<close>, and an environment file with the placeholder on its second line.
\<close>

definition script_path :: string where
  "script_path = ''/srv/telegrambot/tools/generate_key.py''"

definition dotenv_world :: "string \<Rightarrow> world" where
  "dotenv_world t = \<lparr>files = [''/srv/telegrambot/.env'' \<mapsto> File t], stdout = [], writes = []\<rparr>"

definition repl_source :: "nat \<Rightarrow> byte" where
  "repl_source i = (if i = 0 then 0xAD else if i = 1 then 0xEA else 0x65)"

definition sample_env :: string where
  "sample_env = ''BOT_TOKEN=abc'' @ CHR 0x0A # ''ENCRYPTION_KEY=replace_with_generated_key'' @ [CHR 0x0A]"

text \<open>
  A world with more in it: the environment file, another \<open>.env\<close> in the script's own
  directory, a source file, and a line already printed.
\<close>

definition busy_world :: world where
  "busy_world =
     \<lparr>files = [''/srv/telegrambot/.env'' \<mapsto> File sample_env,
               ''/srv/telegrambot/tools/.env'' \<mapsto> File ''BOT_TOKEN=abc'',
               ''/srv/telegrambot/bot.py'' \<mapsto> File ''print(1)''],
      stdout = [''started''], writes = []\<rparr>"

section \<open>Properties\<close>

subsection \<open>Base64: decoding undoes encoding\<close>

lemma b64_alphabet_length: "length b64_alphabet = 64"
  by (simp add: b64_alphabet_def)

lemma b64_alphabet_distinct: "distinct b64_alphabet"
  by (simp add: b64_alphabet_def)

lemma index_of_nth: "distinct xs \<Longrightarrow> n < length xs \<Longrightarrow> index_of (xs ! n) xs = Some n"
proof (induction xs arbitrary: n)
  case Nil
  then show ?case by simp
next
  case (Cons y ys)
  show ?case
  proof (cases n)
    case 0
    then show ?thesis by simp
  next
    case (Suc m)
    with Cons.prems have "ys ! m \<noteq> y" "distinct ys" "m < length ys" by auto
    with Cons.IH Suc show ?thesis by simp
  qed
qed

lemma b64_value_char: "n < 64 \<Longrightarrow> b64_value (b64_char n) = Some n"
  unfolding b64_value_def b64_char_def
  by (rule index_of_nth) (simp_all add: b64_alphabet_distinct b64_alphabet_length)

lemma b64_char_in_alphabet: "n < 64 \<Longrightarrow> b64_char n \<in> set b64_alphabet"
  unfolding b64_char_def by (rule nth_mem) (simp add: b64_alphabet_length)

lemma b64_char_not_pad: "n < 64 \<Longrightarrow> b64_char n \<noteq> CHR ''=''"
proof -
  assume "n < 64"
  then have "b64_char n \<in> set b64_alphabet" by (rule b64_char_in_alphabet)
  moreover have "CHR ''='' \<notin> set b64_alphabet" by (simp add: b64_alphabet_def)
  ultimately show ?thesis by metis
qed

lemma unat_byte_less: "unat (a :: byte) < 256"
  using unsigned_less [of a, where ?'a = nat] by simp

lemma sextet_bounds:
  fixes a b c :: nat
  assumes "a < 256" "b < 256" "c < 256"
  shows "a div 4 < 64" "a mod 4 * 16 < 64" "a mod 4 * 16 + b div 16 < 64"
    "b mod 16 * 4 < 64" "b mod 16 * 4 + c div 64 < 64" "c mod 64 < 64"
proof -
  have a4: "a mod 4 < 4" and b16: "b mod 16 < 16" by simp_all
  have bd: "b div 16 < 16" and cd: "c div 64 < 4"
    using assms by (simp_all add: div_less_iff_less_mult)
  show "a div 4 < 64" using assms by (simp add: div_less_iff_less_mult)
  show "a mod 4 * 16 < 64" using a4 by linarith
  show "a mod 4 * 16 + b div 16 < 64" using a4 bd by linarith
  show "b mod 16 * 4 < 64" using b16 by linarith
  show "b mod 16 * 4 + c div 64 < 64" using b16 cd by linarith
  show "c mod 64 < 64" by simp
qed

lemma byte_div_bounds:
  fixes b :: byte
  shows "unat b div 16 < 16" "unat b div 64 < 4" "unat b div 4 < 64"
  using unat_byte_less [of b] by (simp_all add: div_less_iff_less_mult)

lemma b64decode_b64encode: "b64decode (b64encode bs) = Some bs"
proof (induction bs rule: b64encode.induct)
  case 1
  show ?case by simp
next
  case (2 a)
  note ua = unat_byte_less [of a]
  show ?case
    by (simp add: b64_value_char sextet_bounds [OF ua ua ua] byte_div_bounds)
next
  case (3 a b)
  note ua = unat_byte_less [of a] and ub = unat_byte_less [of b]
  show ?case
    by (simp add: b64_value_char b64_char_not_pad sextet_bounds [OF ua ub ub]
        byte_div_bounds)
next
  case (4 a b c rest)
  note ua = unat_byte_less [of a] and ub = unat_byte_less [of b] and uc = unat_byte_less [of c]
  show ?case using 4
    by (simp add: b64_value_char b64_char_not_pad sextet_bounds [OF ua ub uc]
        byte_div_bounds)
qed

subsection \<open>The shape of an encoded key\<close>

lemma b64encode_length: "length (b64encode bs) = 4 * ((length bs + 2) div 3)"
proof (induction bs rule: b64encode.induct)
  case (4 a b c rest)
  have "(length (a # b # c # rest) + 2) div 3 = Suc ((length rest + 2) div 3)"
    by simp
  with 4 show ?case by simp
qed simp_all

lemma b64encode_chars: "set (b64encode bs) \<subseteq> insert (CHR ''='') (set b64_alphabet)"
proof (induction bs rule: b64encode.induct)
  case 1
  show ?case by simp
next
  case (2 a)
  note ua = unat_byte_less [of a]
  show ?case by (simp add: b64_char_in_alphabet sextet_bounds [OF ua ua ua])
next
  case (3 a b)
  note ua = unat_byte_less [of a] and ub = unat_byte_less [of b]
  show ?case by (simp add: b64_char_in_alphabet sextet_bounds [OF ua ub ub])
next
  case (4 a b c rest)
  note ua = unat_byte_less [of a] and ub = unat_byte_less [of b] and uc = unat_byte_less [of c]
  show ?case using 4 by (simp add: b64_char_in_alphabet sextet_bounds [OF ua ub uc])
qed

lemma b64encode_empty_iff: "b64encode bs = [] \<longleftrightarrow> bs = []"
  by (induction bs rule: b64encode.induct) simp_all

lemma b64encode_last_pad:
  "length bs mod 3 \<noteq> 0 \<Longrightarrow> last (b64encode bs) = CHR ''=''"
proof (induction bs rule: b64encode.induct)
  case (4 a b c rest)
  then have "rest \<noteq> []" by auto
  with 4 show ?case by (simp add: b64encode_empty_iff)
qed simp_all

lemma b64encode_single_pad:
  "length bs mod 3 = 2 \<Longrightarrow> CHR ''='' \<notin> set (butlast (b64encode bs))"
proof (induction bs rule: b64encode.induct)
  case (3 a b)
  note ua = unat_byte_less [of a] and ub = unat_byte_less [of b]
  show ?case
    using b64_char_not_pad [of "unat a div 4"] b64_char_not_pad [of "unat a mod 4 * 16 + unat b div 16"]
      b64_char_not_pad [of "unat b mod 16 * 4"] sextet_bounds [OF ua ub ub]
    by auto
next
  case (4 a b c rest)
  note ua = unat_byte_less [of a] and ub = unat_byte_less [of b] and uc = unat_byte_less [of c]
  from 4 have "rest \<noteq> []" by auto
  then have ne: "b64encode rest \<noteq> []" by (simp add: b64encode_empty_iff)
  from 4 have "CHR ''='' \<notin> set (butlast (b64encode rest))" by simp
  then show ?case
    using b64_char_not_pad [of "unat a div 4"] b64_char_not_pad [of "unat a mod 4 * 16 + unat b div 16"]
      b64_char_not_pad [of "unat b mod 16 * 4 + unat c div 64"] b64_char_not_pad [of "unat c mod 64"]
      sextet_bounds [OF ua ub uc] ne
    by (auto simp add: butlast_append)
qed simp_all

subsection \<open>The function, path by path\<close>

lemma str_contains_sublist: "str_contains sub s = sublist sub s"
  by (induction s) (simp_all add: sublist_Cons_right)

lemma gen_negative:
  "len < 0 \<Longrightarrow> generate_encryption_key script rnd len w = (w, Inl ValueError)"
  by (simp add: generate_encryption_key_def token_bytes_def)

lemma gen_absent:
  assumes "0 \<le> len" and "files w (env_path script) = None"
  shows "generate_encryption_key script rnd len w =
    (print_line advice_line (print_line (key_line (b64encode (map rnd [0..<nat len]))) w),
     Inr (b64encode (map rnd [0..<nat len])))"
  using assms
  by (simp add: generate_encryption_key_def token_bytes_def Let_def path_exists_def
      print_line_def)

lemma gen_directory:
  assumes "0 \<le> len" and "files w (env_path script) = Some Dir"
  shows "generate_encryption_key script rnd len w =
    (print_line advice_line (print_line (key_line (b64encode (map rnd [0..<nat len]))) w),
     Inl IsADirectoryError)"
  using assms
  by (simp add: generate_encryption_key_def token_bytes_def Let_def path_exists_def
      read_file_def print_line_def)

lemma gen_unmarked:
  assumes "0 \<le> len" and "files w (env_path script) = Some (File t)"
    and "\<not> str_contains placeholder t"
  shows "generate_encryption_key script rnd len w =
    (print_line advice_line (print_line (key_line (b64encode (map rnd [0..<nat len]))) w),
     Inr (b64encode (map rnd [0..<nat len])))"
  using assms
  by (simp add: generate_encryption_key_def token_bytes_def Let_def path_exists_def
      read_file_def print_line_def)

lemma gen_patched:
  assumes "0 \<le> len" and "files w (env_path script) = Some (File t)"
    and "str_contains placeholder t"
  shows "generate_encryption_key script rnd len w =
    (let key = b64encode (map rnd [0..<nat len]);
         t' = str_replace placeholder (''ENCRYPTION_KEY='' @ key) t
     in (w\<lparr>files := (files w)(env_path script \<mapsto> File t'),
           stdout := stdout w @ [key_line key, advice_line, updated_line],
           writes := writes w @ [(env_path script, t')]\<rparr>,
         Inr key))"
  using assms
  by (simp add: generate_encryption_key_def token_bytes_def Let_def path_exists_def
      read_file_def write_file_def print_line_def)

lemma gen_returns_key:
  assumes "0 \<le> len" and "files w (env_path script) \<noteq> Some Dir"
  shows "snd (generate_encryption_key script rnd len w) = Inr (b64encode (map rnd [0..<nat len]))"
proof (cases "files w (env_path script)")
  case None
  with assms show ?thesis by (simp add: gen_absent)
next
  case (Some n)
  with assms obtain t where t: "files w (env_path script) = Some (File t)"
    by (cases n) auto
  show ?thesis
  proof (cases "str_contains placeholder t")
    case True
    with assms t show ?thesis by (simp add: gen_patched Let_def)
  next
    case False
    with assms t show ?thesis by (simp add: gen_unmarked)
  qed
qed


subsection \<open>The key decodes to the requested number of bytes\<close>

text \<open>
  Claim C4. For every length \<open>L \<ge> 1\<close> the call returns a base64 string, and the RFC 4648
  decoder turns that string back into exactly \<open>L\<close> bytes. (The call returns whenever the
  \<open>.env\<close> path is not a directory, which is the only way the file step can fail here.)
\<close>

theorem key_decodes_to_length:
  assumes "1 \<le> len" and "files w (env_path script) \<noteq> Some Dir"
  shows "\<exists>key bs. snd (generate_encryption_key script rnd len w) = Inr key
           \<and> b64decode key = Some bs \<and> int (length bs) = len"
proof -
  from assms have "snd (generate_encryption_key script rnd len w)
      = Inr (b64encode (map rnd [0..<nat len]))"
    by (simp add: gen_returns_key)
  moreover have "b64decode (b64encode (map rnd [0..<nat len])) = Some (map rnd [0..<nat len])"
    by (rule b64decode_b64encode)
  moreover from assms have "int (length (map rnd [0..<nat len])) = len" by simp
  ultimately show ?thesis by blast
qed

theorem key_decodes_to_length_witness:
  "(1::int) \<le> 5
   \<and> files \<lparr>files = Map.empty, stdout = [], writes = []\<rparr>
        (env_path ''/srv/telegrambot/tools/generate_key.py'') \<noteq> Some Dir
   \<and> (\<exists>key bs. snd (generate_encryption_key ''/srv/telegrambot/tools/generate_key.py''
          (\<lambda>i. of_nat i) 5 \<lparr>files = Map.empty, stdout = [], writes = []\<rparr>) = Inr key
        \<and> b64decode key = Some bs \<and> int (length bs) = 5)"
  using key_decodes_to_length [of 5 "\<lparr>files = Map.empty, stdout = [], writes = []\<rparr>"
      "''/srv/telegrambot/tools/generate_key.py''" "\<lambda>i. of_nat i"]
  by simp


text \<open>
  Claim C5. For the default length 32 the returned key has 44 characters, its last
  character is the padding character \<open>=\<close>, no other character of it is, and it decodes to
  32 bytes.
\<close>

theorem default_key_shape:
  assumes "files w (env_path script) \<noteq> Some Dir"
  shows "\<exists>key bs. snd (generate_encryption_key script rnd 32 w) = Inr key
           \<and> length key = 44 \<and> last key = CHR ''='' \<and> CHR ''='' \<notin> set (butlast key)
           \<and> b64decode key = Some bs \<and> length bs = 32"
proof -
  let ?bs = "map rnd [0..<nat 32]"
  have len: "length ?bs = 32" by simp
  from assms have "snd (generate_encryption_key script rnd 32 w) = Inr (b64encode ?bs)"
    by (simp add: gen_returns_key)
  moreover have "length (b64encode ?bs) = 44"
    unfolding b64encode_length len by simp
  moreover have "last (b64encode ?bs) = CHR ''=''"
    by (rule b64encode_last_pad) (simp only: len, simp)
  moreover have "CHR ''='' \<notin> set (butlast (b64encode ?bs))"
    by (rule b64encode_single_pad) (simp only: len, simp)
  moreover have "b64decode (b64encode ?bs) = Some ?bs"
    by (rule b64decode_b64encode)
  ultimately show ?thesis using len by blast
qed

theorem default_key_shape_witness:
  "files \<lparr>files = Map.empty, stdout = [], writes = []\<rparr>
        (env_path ''/srv/telegrambot/tools/generate_key.py'') \<noteq> Some Dir
   \<and> (\<exists>key bs. snd (generate_encryption_key ''/srv/telegrambot/tools/generate_key.py''
          (\<lambda>i. 0) 32 \<lparr>files = Map.empty, stdout = [], writes = []\<rparr>) = Inr key
        \<and> length key = 44 \<and> last key = CHR ''='' \<and> CHR ''='' \<notin> set (butlast key)
        \<and> b64decode key = Some bs \<and> length bs = 32)"
  using default_key_shape [of "\<lparr>files = Map.empty, stdout = [], writes = []\<rparr>"
      "''/srv/telegrambot/tools/generate_key.py''" "\<lambda>i. 0"]
  by simp

subsection \<open>Replacing the placeholder\<close>

text \<open>
  A key that ends in the padding character and has no underscore cannot complete an
  occurrence of the placeholder: neither behind \<open>ENCRYPTION_KEY=\<close> nor as the start of a
  new one. Text in front of an occurrence cannot complete one with the replacement either,
  since the placeholder begins with \<open>EN\<close> nowhere but at its start.
\<close>

lemma pad_blocks_prefix:
  assumes "key \<noteq> []" and "last key = CHR ''=''" and "CHR ''_'' \<notin> set key"
    and "CHR ''='' \<notin> set A"
  shows "\<not> prefix (A @ CHR ''_'' # B) (key @ Y)"
proof
  assume "prefix (A @ CHR ''_'' # B) (key @ Y)"
  moreover have "prefix (A @ [CHR ''_'']) (A @ CHR ''_'' # B)" by simp
  ultimately have "prefix (A @ [CHR ''_'']) (key @ Y)" by (rule prefix_order.trans [rotated])
  moreover have "prefix key (key @ Y)" by simp
  ultimately consider "prefix (A @ [CHR ''_'']) key" | "prefix key (A @ [CHR ''_''])"
    using prefix_same_cases by blast
  then show False
  proof cases
    case 1
    then have "set (A @ [CHR ''_'']) \<subseteq> set key" by (rule set_mono_prefix)
    with assms(3) show False by simp
  next
    case 2
    then have "set key \<subseteq> set (A @ [CHR ''_''])" by (rule set_mono_prefix)
    moreover from assms(1,2) have "CHR ''='' \<in> set key" using last_in_set by metis
    ultimately show False using assms(4) by auto
  qed
qed

lemma placeholder_after_key:
  assumes "key = [] \<or> last key = CHR ''=''" and "CHR ''_'' \<notin> set key"
    and "str_contains placeholder (key @ Y)"
  shows "str_contains placeholder Y"
  using assms
proof (induction key)
  case Nil
  then show ?case by simp
next
  case (Cons c cs)
  have "\<not> prefix (''ENCRYPTION'' @ CHR ''_'' # ''KEY=replace_with_generated_key'') ((c # cs) @ Y)"
    using Cons.prems by (intro pad_blocks_prefix) auto
  then have "\<not> prefix placeholder ((c # cs) @ Y)" by (simp add: placeholder_def)
  with Cons.prems have "str_contains placeholder (cs @ Y)" by simp
  moreover from Cons.prems have "cs = [] \<or> last cs = CHR ''=''" by (auto split: if_splits)
  moreover from Cons.prems have "CHR ''_'' \<notin> set cs" by simp
  ultimately show ?case using Cons.IH by blast
qed

lemma placeholder_after_assignment:
  assumes "key \<noteq> []" and "last key = CHR ''=''" and "CHR ''_'' \<notin> set key"
    and "str_contains placeholder ((''ENCRYPTION_KEY='' @ key) @ Y)"
  shows "str_contains placeholder Y"
proof -
  have "\<not> prefix (''replace'' @ CHR ''_'' # ''with_generated_key'') (key @ Y)"
    using assms(1-3) by (intro pad_blocks_prefix) auto
  then have "\<not> prefix ''replace_with_generated_key'' (key @ Y)" by simp
  with assms(4) have "str_contains placeholder (key @ Y)"
    by (simp add: placeholder_def)
  with assms show ?thesis using placeholder_after_key by blast
qed

lemma placeholder_not_shifted:
  assumes "u \<noteq> []" and "prefix placeholder (u @ CHR ''E'' # CHR ''N'' # Z)"
  shows "prefix placeholder u"
proof -
  from assms(2) consider "prefix placeholder u"
    | v where "placeholder = u @ v" "prefix v (CHR ''E'' # CHR ''N'' # Z)"
    by (auto simp add: prefix_append)
  then show ?thesis
  proof cases
    case 1
    then show ?thesis .
  next
    case 2
    from assms(1) obtain a u' where u: "u = a # u'" by (cases u) auto
    show ?thesis
    proof (cases v)
      case Nil
      with 2 show ?thesis by simp
    next
      case (Cons x v')
      with 2 have x: "x = CHR ''E''" by simp
      show ?thesis
      proof (cases v')
        case Nil
        with 2 \<open>v = x # v'\<close> x have "placeholder = u @ [CHR ''E'']" by simp
        then have "last placeholder = last (u @ [CHR ''E''])" by (rule arg_cong)
        then have "last placeholder = CHR ''E''" by simp
        then show ?thesis by (simp add: placeholder_def)
      next
        case (Cons y v'')
        with 2 \<open>v = x # v'\<close> x have "y = CHR ''N''" by simp
        with 2 \<open>v = x # v'\<close> x Cons u
        have "placeholder = a # u' @ ''EN'' @ v''" by simp
        then have "tl placeholder = tl (a # u' @ ''EN'' @ v'')" by (rule arg_cong)
        then have "tl placeholder = u' @ ''EN'' @ v''" by simp
        then have "sublist ''EN'' (tl placeholder)" unfolding sublist_def by blast
        then have "str_contains ''EN'' (tl placeholder)" by (simp add: str_contains_sublist)
        then show ?thesis by (simp add: placeholder_def)
      qed
    qed
  qed
qed

lemma replace_keeps_mismatch:
  assumes "u \<noteq> []"
    and "prefix placeholder (u @ str_replace placeholder (''ENCRYPTION_KEY='' @ key) s)"
  shows "prefix placeholder (u @ s)"
  using assms
proof (induction s arbitrary: u rule: length_induct)
  case (1 s)
  show ?case
  proof (cases s)
    case Nil
    with 1 show ?thesis by (simp add: placeholder_def)
  next
    case (Cons c cs)
    have ne: "placeholder \<noteq> []" by (simp add: placeholder_def)
    show ?thesis
    proof (cases "prefix placeholder (c # cs)")
      case True
      with 1 Cons ne have "prefix placeholder
          (u @ CHR ''E'' # CHR ''N'' # (''CRYPTION_KEY='' @ key)
             @ str_replace placeholder (''ENCRYPTION_KEY='' @ key) (drop (length placeholder) (c # cs)))"
        by simp
      with 1(2) have "prefix placeholder u" by (rule placeholder_not_shifted)
      then show ?thesis by (simp add: prefix_prefix)
    next
      case False
      with 1 Cons ne have "prefix placeholder
          ((u @ [c]) @ str_replace placeholder (''ENCRYPTION_KEY='' @ key) cs)"
        by simp
      moreover have "length cs < length s" using Cons by simp
      ultimately have "prefix placeholder ((u @ [c]) @ cs)" using 1(1) by blast
      with Cons show ?thesis by simp
    qed
  qed
qed

lemma replace_removes_placeholder:
  assumes "key \<noteq> []" and "last key = CHR ''=''" and "CHR ''_'' \<notin> set key"
  shows "\<not> str_contains placeholder (str_replace placeholder (''ENCRYPTION_KEY='' @ key) s)"
proof (induction s rule: length_induct)
  case (1 s)
  note IH = "1.IH" [rule_format]
  have ne: "placeholder \<noteq> []" by (simp add: placeholder_def)
  show ?case
  proof (cases s)
    case Nil
    have "str_replace placeholder (''ENCRYPTION_KEY='' @ key) [] = []"
      using ne by simp
    with Nil show ?thesis using ne by simp
  next
    case (Cons c cs)
    show ?thesis
    proof (cases "prefix placeholder (c # cs)")
      case True
      let ?rest = "drop (length placeholder) (c # cs)"
      have "length ?rest < length s" using Cons ne by simp
      then have "\<not> str_contains placeholder
          (str_replace placeholder (''ENCRYPTION_KEY='' @ key) ?rest)" by (rule IH)
      then have "\<not> str_contains placeholder ((''ENCRYPTION_KEY='' @ key)
          @ str_replace placeholder (''ENCRYPTION_KEY='' @ key) ?rest)"
        using placeholder_after_assignment [OF assms] by blast
      moreover have "str_replace placeholder (''ENCRYPTION_KEY='' @ key) (c # cs)
          = (''ENCRYPTION_KEY='' @ key) @ str_replace placeholder (''ENCRYPTION_KEY='' @ key) ?rest"
        using True ne by (simp only: str_replace.simps if_True if_False)
      ultimately show ?thesis unfolding Cons by (simp only: simp_thms)
    next
      case False
      have eq: "str_replace placeholder (''ENCRYPTION_KEY='' @ key) (c # cs)
          = c # str_replace placeholder (''ENCRYPTION_KEY='' @ key) cs"
        using False ne by (simp only: str_replace.simps if_True if_False)
      have "\<not> prefix placeholder ([c] @ str_replace placeholder (''ENCRYPTION_KEY='' @ key) cs)"
      proof
        assume "prefix placeholder ([c] @ str_replace placeholder (''ENCRYPTION_KEY='' @ key) cs)"
        then have "prefix placeholder ([c] @ cs)"
          by (rule replace_keeps_mismatch [rotated]) simp
        with False show False by simp
      qed
      then have a: "\<not> prefix placeholder (c # str_replace placeholder (''ENCRYPTION_KEY='' @ key) cs)"
        by simp
      have "length cs < length s" using Cons by simp
      then have b: "\<not> str_contains placeholder
          (str_replace placeholder (''ENCRYPTION_KEY='' @ key) cs)" by (rule IH)
      show ?thesis unfolding Cons eq using a b by (simp only: str_contains.simps simp_thms)
    qed
  qed
qed

lemma underscore_not_in_key: "CHR ''_'' \<notin> set (b64encode bs)"
proof -
  have "CHR ''_'' \<notin> insert (CHR ''='') (set b64_alphabet)"
    by (simp add: b64_alphabet_def)
  with b64encode_chars [of bs] show ?thesis by blast
qed

lemma padded_key_removes_placeholder:
  assumes "length bs mod 3 \<noteq> 0"
  shows "\<not> str_contains placeholder
           (str_replace placeholder (''ENCRYPTION_KEY='' @ b64encode bs) t)"
proof (rule replace_removes_placeholder)
  from assms have "bs \<noteq> []" by auto
  then show "b64encode bs \<noteq> []" by (simp add: b64encode_empty_iff)
  from assms show "last (b64encode bs) = CHR ''=''" by (rule b64encode_last_pad)
  show "CHR ''_'' \<notin> set (b64encode bs)" by (rule underscore_not_in_key)
qed

subsection \<open>The concrete runs evaluated\<close>

lemma env_path_script_path: "env_path script_path = ''/srv/telegrambot/.env''"
  by (simp add: env_path_def script_path_def dirname_def path_join_def)

lemma dotenv_world_file: "files (dotenv_world t) (env_path script_path) = Some (File t)"
  by (simp add: env_path_script_path dotenv_world_def)

lemma sample_env_marked: "str_contains placeholder sample_env"
  by (simp add: placeholder_def sample_env_def)

lemma upt_3: "[0..<3] = [0, 1, 2]"
  by (simp add: upt_rec)

lemma repl_key: "b64encode (map repl_source [0..<3]) = ''repl''"
  by (simp add: upt_3 repl_source_def b64_char_def b64_alphabet_def)

subsection \<open>Patching the environment file\<close>

text \<open>
  Claim C1, as the specification states it, fails: with a three-byte key that encodes to
  \<open>repl\<close> and a file that holds the placeholder followed by \<open>ace_with_generated_key\<close>,
  the rewritten file is the placeholder itself.
\<close>

theorem placeholder_survives_counterexample:
  "str_contains placeholder (placeholder @ ''ace_with_generated_key'')
   \<and> snd (generate_encryption_key script_path repl_source 3
            (dotenv_world (placeholder @ ''ace_with_generated_key''))) = Inr ''repl''
   \<and> files (fst (generate_encryption_key script_path repl_source 3
            (dotenv_world (placeholder @ ''ace_with_generated_key''))))
         ''/srv/telegrambot/.env'' = Some (File ''ENCRYPTION_KEY=replace_with_generated_key'')
   \<and> str_contains placeholder ''ENCRYPTION_KEY=replace_with_generated_key''"
proof -
  have c: "str_contains placeholder (placeholder @ ''ace_with_generated_key'')"
    by (simp add: placeholder_def)
  have f: "files (dotenv_world (placeholder @ ''ace_with_generated_key'')) (env_path script_path)
      = Some (File (placeholder @ ''ace_with_generated_key''))"
    by (simp add: env_path_script_path dotenv_world_def)
  have r: "str_replace placeholder ''ENCRYPTION_KEY=repl'' (placeholder @ ''ace_with_generated_key'')
      = ''ENCRYPTION_KEY=replace_with_generated_key''"
    by (simp add: placeholder_def)
  have "(0::int) \<le> 3" by simp
  from gen_patched [OF this f c, of repl_source]
  have "generate_encryption_key script_path repl_source 3
      (dotenv_world (placeholder @ ''ace_with_generated_key''))
    = (dotenv_world (placeholder @ ''ace_with_generated_key'')
        \<lparr>files := (files (dotenv_world (placeholder @ ''ace_with_generated_key'')))
                  (env_path script_path \<mapsto> File ''ENCRYPTION_KEY=replace_with_generated_key''),
         stdout := stdout (dotenv_world (placeholder @ ''ace_with_generated_key''))
                  @ [key_line ''repl'', advice_line, updated_line],
         writes := writes (dotenv_world (placeholder @ ''ace_with_generated_key''))
                  @ [(env_path script_path, ''ENCRYPTION_KEY=replace_with_generated_key'')]\<rparr>,
       Inr ''repl'')"
    unfolding Let_def by (simp only: nat_numeral repl_key append.simps r)
  then show ?thesis
    using c by (simp add: env_path_script_path) (simp add: placeholder_def)
qed

text \<open>
  Claim C1, amended. For every length \<open>L \<ge> 0\<close> and every \<open>.env\<close> file whose content holds
  the placeholder, after the call the file's content is the old content with every
  occurrence of the placeholder replaced by \<open>ENCRYPTION_KEY=\<close> followed by the returned
  key; and when \<open>L\<close> is not a multiple of 3, as for the default 32, the placeholder no
  longer occurs in the file.
\<close>

theorem env_file_patched:
  assumes "0 \<le> len" and "files w (env_path script) = Some (File t)"
    and "str_contains placeholder t"
  shows "\<exists>key. snd (generate_encryption_key script rnd len w) = Inr key
     \<and> files (fst (generate_encryption_key script rnd len w)) (env_path script)
         = Some (File (str_replace placeholder (''ENCRYPTION_KEY='' @ key) t))
     \<and> (len mod 3 \<noteq> 0 \<longrightarrow>
          \<not> str_contains placeholder (str_replace placeholder (''ENCRYPTION_KEY='' @ key) t))"
proof -
  let ?bs = "map rnd [0..<nat len]"
  note run = gen_patched [OF assms, of rnd, unfolded Let_def]
  have r1: "snd (generate_encryption_key script rnd len w) = Inr (b64encode ?bs)"
    unfolding run by simp
  have r2: "files (fst (generate_encryption_key script rnd len w)) (env_path script)
       = Some (File (str_replace placeholder (''ENCRYPTION_KEY='' @ b64encode ?bs) t))"
    unfolding run by simp
  have r3: "\<not> str_contains placeholder
          (str_replace placeholder (''ENCRYPTION_KEY='' @ b64encode ?bs) t)"
    if "len mod 3 \<noteq> 0"
  proof (rule padded_key_removes_placeholder)
    have "length ?bs = nat len" by simp
    moreover have "nat len mod 3 \<noteq> 0"
    proof
      assume "nat len mod 3 = 0"
      then have "int (nat len) mod 3 = 0" by presburger
      with assms(1) that show False by simp
    qed
    ultimately show "length ?bs mod 3 \<noteq> 0" by (simp only: simp_thms)
  qed
  show ?thesis
  proof (intro exI conjI impI)
    show "snd (generate_encryption_key script rnd len w) = Inr (b64encode ?bs)" by (rule r1)
    show "files (fst (generate_encryption_key script rnd len w)) (env_path script)
       = Some (File (str_replace placeholder (''ENCRYPTION_KEY='' @ b64encode ?bs) t))"
      by (rule r2)
    show "\<not> str_contains placeholder
          (str_replace placeholder (''ENCRYPTION_KEY='' @ b64encode ?bs) t)"
      if "len mod 3 \<noteq> 0" using that by (rule r3)
  qed
qed

theorem env_file_patched_witness:
  "(0::int) \<le> 32
   \<and> files (dotenv_world sample_env) (env_path script_path) = Some (File sample_env)
   \<and> str_contains placeholder sample_env
   \<and> (32::int) mod 3 \<noteq> 0
   \<and> (\<exists>key. snd (generate_encryption_key script_path (\<lambda>i. 0) 32 (dotenv_world sample_env))
            = Inr key
        \<and> files (fst (generate_encryption_key script_path (\<lambda>i. 0) 32 (dotenv_world sample_env)))
              (env_path script_path)
            = Some (File (str_replace placeholder (''ENCRYPTION_KEY='' @ key) sample_env))
        \<and> \<not> str_contains placeholder
                 (str_replace placeholder (''ENCRYPTION_KEY='' @ key) sample_env))"
proof -
  have h1: "(0::int) \<le> 32" by simp
  have h4: "(32::int) mod 3 \<noteq> 0" by simp
  note h2 = dotenv_world_file [of sample_env] and h3 = sample_env_marked
  from env_file_patched [OF h1 h2 h3, of "\<lambda>i. 0"] h1 h2 h3 h4 show ?thesis by blast
qed

text \<open>
  Claim C2. When the \<open>.env\<close> file exists and its content does not hold the placeholder,
  the call leaves the whole file system as it was and writes to no file, for every
  length.
\<close>

theorem unmarked_env_untouched:
  assumes "files w (env_path script) = Some (File t)"
    and "\<not> str_contains placeholder t"
  shows "files (fst (generate_encryption_key script rnd len w)) = files w
     \<and> writes (fst (generate_encryption_key script rnd len w)) = writes w"
proof (cases "0 \<le> len")
  case True
  with assms show ?thesis by (simp add: gen_unmarked print_line_def)
next
  case False
  then show ?thesis by (simp add: gen_negative)
qed

theorem unmarked_env_untouched_witness:
  "files (dotenv_world ''BOT_TOKEN=abc'') (env_path script_path) = Some (File ''BOT_TOKEN=abc'')
   \<and> \<not> str_contains placeholder ''BOT_TOKEN=abc''
   \<and> files (fst (generate_encryption_key script_path (\<lambda>i. 0) 32 (dotenv_world ''BOT_TOKEN=abc'')))
       = files (dotenv_world ''BOT_TOKEN=abc'')
   \<and> writes (fst (generate_encryption_key script_path (\<lambda>i. 0) 32 (dotenv_world ''BOT_TOKEN=abc'')))
       = writes (dotenv_world ''BOT_TOKEN=abc'')"
proof -
  note h1 = dotenv_world_file [of "''BOT_TOKEN=abc''"]
  have h2: "\<not> str_contains placeholder ''BOT_TOKEN=abc''" by (simp add: placeholder_def)
  from unmarked_env_untouched [OF h1 h2, of "\<lambda>i. 0" 32] h1 h2 show ?thesis by blast
qed

text \<open>
  Claim C3. When nothing exists at the \<open>.env\<close> path, the call writes to no file, leaves the
  file system as it was, and returns the base64 encoding of the bytes drawn.
\<close>

theorem absent_env_no_write:
  assumes "0 \<le> len" and "files w (env_path script) = None"
  shows "snd (generate_encryption_key script rnd len w) = Inr (b64encode (map rnd [0..<nat len]))
     \<and> writes (fst (generate_encryption_key script rnd len w)) = writes w
     \<and> files (fst (generate_encryption_key script rnd len w)) = files w"
  using assms by (simp add: gen_absent print_line_def)

theorem absent_env_no_write_witness:
  "(0::int) \<le> 32
   \<and> files \<lparr>files = Map.empty, stdout = [], writes = []\<rparr> (env_path script_path) = None
   \<and> snd (generate_encryption_key script_path (\<lambda>i. 0) 32
          \<lparr>files = Map.empty, stdout = [], writes = []\<rparr>)
       = Inr (b64encode (map (\<lambda>i. 0) [0..<nat 32]))
   \<and> writes (fst (generate_encryption_key script_path (\<lambda>i. 0) 32
          \<lparr>files = Map.empty, stdout = [], writes = []\<rparr>)) = []
   \<and> files (fst (generate_encryption_key script_path (\<lambda>i. 0) 32
          \<lparr>files = Map.empty, stdout = [], writes = []\<rparr>)) = Map.empty"
proof -
  have h1: "(0::int) \<le> 32" by simp
  have h2: "files \<lparr>files = Map.empty, stdout = [], writes = []\<rparr> (env_path script_path) = None"
    by simp
  from absent_env_no_write [OF h1 h2, of "\<lambda>i. 0"] h1 h2 show ?thesis by simp
qed

subsection \<open>Where the environment file is looked for\<close>

lemma abs_path_snoc:
  "abs_path (ds @ [f]) = (if ds = [] then [] else abs_path ds) @ CHR ''/'' # f"
  by (simp add: abs_path_def)

lemma abs_path_last:
  assumes "cs \<noteq> []" and "valid_components cs"
  shows "abs_path cs \<noteq> [] \<and> last (abs_path cs) \<noteq> CHR ''/''"
proof -
  from assms(1) obtain ds f where cs: "cs = ds @ [f]" by (metis rev_exhaust)
  with assms(2) have f: "f \<noteq> []" "CHR ''/'' \<notin> set f"
    by (simp_all add: valid_components_def)
  then have "last f \<noteq> CHR ''/''" using last_in_set by metis
  with f show ?thesis unfolding cs abs_path_snoc by simp
qed

lemma valid_components_butlast: "valid_components cs \<Longrightarrow> valid_components (butlast cs)"
  unfolding valid_components_def list_all_iff by (auto dest: in_set_butlastD)

lemma rooted_snoc:
  "rooted n (ds @ [f]) = (if ds = [] then replicate n (CHR ''/'') else rooted n ds) @ CHR ''/'' # f"
  by (simp add: rooted_def abs_path_def)

lemma rooted_last:
  assumes "cs \<noteq> []" and "valid_components cs"
  shows "rooted n cs \<noteq> [] \<and> last (rooted n cs) \<noteq> CHR ''/''"
  using abs_path_last [OF assms] by (simp add: rooted_def)

lemma slashes_snoc: "replicate n (CHR ''/'') @ ''/'' = replicate (Suc n) (CHR ''/'')"
  by (simp add: replicate_append_same)

lemma dirname_slashes: "dirname (replicate (Suc n) (CHR ''/'')) = replicate (Suc n) (CHR ''/'')"
proof -
  let ?r = "replicate (Suc n) (CHR ''/'')"
  have r: "rev ?r = ?r" by (rule rev_replicate)
  have "dropWhile (\<lambda>c. c \<noteq> CHR ''/'') ?r = ?r" by simp
  then have h: "rev (dropWhile (\<lambda>c. c \<noteq> CHR ''/'') (rev ?r)) = ?r"
    by (simp only: r)
  have "dirname ?r = (if ?r \<noteq> [] \<and> ?r \<noteq> replicate (length ?r) (CHR ''/'')
      then rev (dropWhile (\<lambda>c. c = CHR ''/'') (rev ?r)) else ?r)"
    by (simp only: dirname_def Let_def h)
  also have "\<dots> = ?r" by simp
  finally show ?thesis .
qed

lemma dirname_rooted:
  assumes "valid_components cs"
  shows "dirname (rooted n cs) = rooted n (butlast cs)"
proof (cases cs rule: rev_cases)
  case Nil
  have "rooted n [] = replicate (Suc n) (CHR ''/'')"
    by (simp add: rooted_def abs_path_def slashes_snoc)
  with Nil show ?thesis by (simp only: butlast.simps dirname_slashes)
next
  case (snoc ds f)
  with assms have f: "\<forall>c\<in>set (rev f). c \<noteq> CHR ''/''" and ds: "valid_components ds"
    by (auto simp add: valid_components_def)
  let ?X = "if ds = [] then replicate n (CHR ''/'') else rooted n ds"
  let ?H = "?X @ ''/''"
  have dw: "dropWhile (\<lambda>c. c \<noteq> CHR ''/'') (rev f @ ys) = dropWhile (\<lambda>c. c \<noteq> CHR ''/'') ys"
    for ys using f by (intro dropWhile_append2) blast
  have h: "rev (dropWhile (\<lambda>c. c \<noteq> CHR ''/'') (rev (rooted n cs))) = ?H"
    unfolding snoc rooted_snoc by (simp add: dw)
  have d: "dirname (rooted n cs)
      = (if ?H \<noteq> [] \<and> ?H \<noteq> replicate (length ?H) (CHR ''/'')
         then rev (dropWhile (\<lambda>c. c = CHR ''/'') (rev ?H)) else ?H)"
    by (simp only: dirname_def Let_def h)
  show ?thesis
  proof (cases "ds = []")
    case True
    then have "?H = replicate (Suc n) (CHR ''/'')" by (simp add: slashes_snoc)
    with d have "dirname (rooted n cs) = replicate (Suc n) (CHR ''/'')" by simp
    moreover have "rooted n [] = replicate (Suc n) (CHR ''/'')"
      by (simp add: rooted_def abs_path_def slashes_snoc)
    ultimately show ?thesis using True snoc by simp
  next
    case False
    with ds have l: "rooted n ds \<noteq> []" "last (rooted n ds) \<noteq> CHR ''/''"
      using rooted_last by blast+
    then have "last (rooted n ds) \<in> set (rooted n ds)" by simp
    moreover have "set (replicate k (CHR ''/'')) \<subseteq> {CHR ''/''}" for k by auto
    ultimately have notall: "rooted n ds @ ''/'' \<noteq> replicate k (CHR ''/'')" for k
      using l(2) by (metis Un_iff set_append singletonD subsetD)
    from l have "hd (rev (rooted n ds)) \<noteq> CHR ''/''" by (simp add: hd_rev)
    with l(1) have strip:
      "dropWhile (\<lambda>c. c = CHR ''/'') (rev (rooted n ds)) = rev (rooted n ds)"
      by (cases "rev (rooted n ds)") auto
    let ?G = "rooted n ds @ ''/''"
    from False have HG: "?H = ?G" by simp
    have "?G \<noteq> []" by simp
    with notall [of "length ?G"] have c: "?G \<noteq> [] \<and> ?G \<noteq> replicate (length ?G) (CHR ''/'')"
      by blast
    from d have "dirname (rooted n cs)
        = (if ?G \<noteq> [] \<and> ?G \<noteq> replicate (length ?G) (CHR ''/'')
           then rev (dropWhile (\<lambda>c. c = CHR ''/'') (rev ?G)) else ?G)"
      unfolding HG .
    also have "\<dots> = rev (dropWhile (\<lambda>c. c = CHR ''/'') (rev ?G))"
      by (rule if_P [OF c])
    also have "\<dots> = rooted n ds" by (simp add: strip)
    finally show ?thesis using snoc by simp
  qed
qed

lemma env_path_rooted:
  assumes "valid_components cs"
  shows "env_path (rooted n cs) = rooted n (butlast (butlast cs) @ [''.env''])"
proof -
  let ?ds = "butlast (butlast cs)"
  have v: "valid_components ?ds" using assms by (intro valid_components_butlast)
  have d: "dirname (dirname (rooted n cs)) = rooted n ?ds"
    using assms by (simp add: dirname_rooted valid_components_butlast)
  show ?thesis
  proof (cases "?ds = []")
    case True
    have "rooted n [] = replicate (Suc n) (CHR ''/'')"
      by (simp add: rooted_def abs_path_def slashes_snoc)
    moreover have "rooted n [''.env''] = replicate (Suc n) (CHR ''/'') @ ''.env''"
      by (simp add: rooted_def abs_path_def replicate_append_same)
    ultimately show ?thesis unfolding env_path_def d True
      by (simp add: path_join_def)
  next
    case False
    with v have "rooted n ?ds \<noteq> []" "last (rooted n ?ds) \<noteq> CHR ''/''"
      using rooted_last by blast+
    with False show ?thesis unfolding env_path_def d rooted_snoc
      by (simp add: path_join_def)
  qed
qed

lemma env_cases:
  obtains (absent) "files w p = None"
  | (directory) "files w p = Some Dir"
  | (unmarked) t where "files w p = Some (File t)" "\<not> str_contains placeholder t"
  | (marked) t where "files w p = Some (File t)" "str_contains placeholder t"
proof (cases "files w p")
  case None
  then show ?thesis by (rule absent)
next
  case (Some n)
  show ?thesis
  proof (cases n)
    case (File t)
    with Some unmarked marked show ?thesis by (cases "str_contains placeholder t") auto
  next
    case Dir
    with Some show ?thesis by (intro directory) simp
  qed
qed

lemma gen_frame:
  assumes "p \<noteq> env_path script"
  shows "files (fst (generate_encryption_key script rnd len w)) p = files w p"
proof (cases "0 \<le> len")
  case False
  then show ?thesis by (simp add: gen_negative)
next
  case True
  show ?thesis
  proof (cases rule: env_cases [of w "env_path script"])
    case absent
    with True show ?thesis by (simp add: gen_absent print_line_def)
  next
    case directory
    with True show ?thesis by (simp add: gen_directory print_line_def)
  next
    case (unmarked t)
    with True show ?thesis by (simp add: gen_unmarked [of len w script t] print_line_def)
  next
    case (marked t)
    with True assms show ?thesis by (simp add: gen_patched [of len w script t] Let_def)
  qed
qed

lemma gen_reads_only_env_path:
  assumes "files w' (env_path script) = files w (env_path script)"
  shows "snd (generate_encryption_key script rnd len w')
           = snd (generate_encryption_key script rnd len w)
     \<and> files (fst (generate_encryption_key script rnd len w')) (env_path script)
           = files (fst (generate_encryption_key script rnd len w)) (env_path script)
     \<and> drop (length (stdout w')) (stdout (fst (generate_encryption_key script rnd len w')))
           = drop (length (stdout w)) (stdout (fst (generate_encryption_key script rnd len w)))
     \<and> drop (length (writes w')) (writes (fst (generate_encryption_key script rnd len w')))
           = drop (length (writes w)) (writes (fst (generate_encryption_key script rnd len w)))"
proof (cases "0 \<le> len")
  case False
  with assms show ?thesis by (simp add: gen_negative)
next
  case True
  show ?thesis
  proof (cases rule: env_cases [of w "env_path script"])
    case absent
    with assms have "files w' (env_path script) = None" by simp
    with absent True show ?thesis by (simp add: gen_absent print_line_def)
  next
    case directory
    with assms have "files w' (env_path script) = Some Dir" by simp
    with directory True show ?thesis by (simp add: gen_directory print_line_def)
  next
    case (unmarked t)
    with assms have "files w' (env_path script) = Some (File t)" by simp
    with unmarked True show ?thesis
      by (simp add: gen_unmarked [of len w script t] gen_unmarked [of len w' script t]
          print_line_def)
  next
    case (marked t)
    with assms have "files w' (env_path script) = Some (File t)" by simp
    with marked True show ?thesis
      by (simp add: gen_patched [of len w script t] gen_patched [of len w' script t] Let_def)
  qed
qed

lemma gen_acts_on_env_path:
  assumes "0 \<le> len"
  shows "(snd (generate_encryption_key script rnd len w) = Inl IsADirectoryError)
           = (files w (env_path script) = Some Dir)
     \<and> writes (fst (generate_encryption_key script rnd len w))
           = writes w @
             (case files w (env_path script) of
                Some (File t) \<Rightarrow>
                  if str_contains placeholder t
                  then [(env_path script,
                         str_replace placeholder
                           (''ENCRYPTION_KEY='' @ b64encode (map rnd [0..<nat len])) t)]
                  else []
              | _ \<Rightarrow> [])
     \<and> files (fst (generate_encryption_key script rnd len w)) (env_path script)
           = (case files w (env_path script) of
                Some (File t) \<Rightarrow>
                  if str_contains placeholder t
                  then Some (File (str_replace placeholder
                           (''ENCRYPTION_KEY='' @ b64encode (map rnd [0..<nat len])) t))
                  else Some (File t)
              | other \<Rightarrow> other)"
proof (cases rule: env_cases [of w "env_path script"])
  case absent
  with assms show ?thesis by (simp add: gen_absent print_line_def)
next
  case directory
  with assms show ?thesis by (simp add: gen_directory print_line_def)
next
  case (unmarked t)
  with assms show ?thesis by (simp add: gen_unmarked [of len w script t] print_line_def)
next
  case (marked t)
  with assms show ?thesis by (simp add: gen_patched [of len w script t] Let_def)
qed

lemma rooted_example:
  "rooted 0 [''srv'', ''telegrambot'', ''tools'', ''generate_key.py''] = script_path"
  "rooted 0 (butlast (butlast [''srv'', ''telegrambot'', ''tools'', ''generate_key.py''])
     @ [''.env'']) = ''/srv/telegrambot/.env''"
  by (simp_all add: rooted_def abs_path_def script_path_def)

lemma busy_world_files:
  "files busy_world ''/srv/telegrambot/.env'' = Some (File sample_env)"
  "files (dotenv_world sample_env) ''/srv/telegrambot/.env''
     = files busy_world ''/srv/telegrambot/.env''"
  "writes busy_world = []"
  by (simp_all add: busy_world_def dotenv_world_def)

text \<open>
  Claim C6. For a script at a normalised absolute path with components \<open>cs\<close> (behind one
  or more leading slashes), the path the function inspects is \<open>.env\<close> in the parent of
  the script's directory: the components of the script without the last two, followed by
  \<open>.env\<close> (the parent of the root being the root). That is the path it tests, reads and
  writes: no other path of the file system is changed; two worlds that agree at that
  path give the same outcome, the same new output and writes, and the same file there;
  and for \<open>L \<ge> 0\<close> the call fails with \<open>IsADirectoryError\<close> exactly when a directory is
  at that path, and writes exactly when a file with the placeholder is there, to that path
  and with the content read from it.
\<close>

theorem env_path_location:
  assumes "valid_components cs"
  shows "env_path (rooted n cs) = rooted n (butlast (butlast cs) @ [''.env''])
     \<and> (\<forall>p. p \<noteq> rooted n (butlast (butlast cs) @ [''.env'']) \<longrightarrow>
           files (fst (generate_encryption_key (rooted n cs) rnd len w)) p = files w p)
     \<and> (\<forall>w'. files w' (rooted n (butlast (butlast cs) @ [''.env'']))
              = files w (rooted n (butlast (butlast cs) @ [''.env''])) \<longrightarrow>
           snd (generate_encryption_key (rooted n cs) rnd len w')
             = snd (generate_encryption_key (rooted n cs) rnd len w)
           \<and> files (fst (generate_encryption_key (rooted n cs) rnd len w'))
                 (rooted n (butlast (butlast cs) @ [''.env'']))
             = files (fst (generate_encryption_key (rooted n cs) rnd len w))
                 (rooted n (butlast (butlast cs) @ [''.env'']))
           \<and> drop (length (stdout w'))
                 (stdout (fst (generate_encryption_key (rooted n cs) rnd len w')))
             = drop (length (stdout w))
                 (stdout (fst (generate_encryption_key (rooted n cs) rnd len w)))
           \<and> drop (length (writes w'))
                 (writes (fst (generate_encryption_key (rooted n cs) rnd len w')))
             = drop (length (writes w))
                 (writes (fst (generate_encryption_key (rooted n cs) rnd len w))))
     \<and> (0 \<le> len \<longrightarrow>
           (snd (generate_encryption_key (rooted n cs) rnd len w) = Inl IsADirectoryError)
             = (files w (rooted n (butlast (butlast cs) @ [''.env''])) = Some Dir)
           \<and> writes (fst (generate_encryption_key (rooted n cs) rnd len w))
             = writes w @
               (case files w (rooted n (butlast (butlast cs) @ [''.env''])) of
                  Some (File t) \<Rightarrow>
                    if str_contains placeholder t
                    then [(rooted n (butlast (butlast cs) @ [''.env'']),
                           str_replace placeholder
                             (''ENCRYPTION_KEY='' @ b64encode (map rnd [0..<nat len])) t)]
                    else []
                | _ \<Rightarrow> [])
           \<and> files (fst (generate_encryption_key (rooted n cs) rnd len w))
                 (rooted n (butlast (butlast cs) @ [''.env'']))
             = (case files w (rooted n (butlast (butlast cs) @ [''.env''])) of
                  Some (File t) \<Rightarrow>
                    if str_contains placeholder t
                    then Some (File (str_replace placeholder
                             (''ENCRYPTION_KEY='' @ b64encode (map rnd [0..<nat len])) t))
                    else Some (File t)
                | other \<Rightarrow> other))"
proof -
  note loc = env_path_rooted [OF assms, of n]
  have frame: "files (fst (generate_encryption_key (rooted n cs) rnd len w)) p = files w p"
    if "p \<noteq> rooted n (butlast (butlast cs) @ [''.env''])" for p
    using that loc by (intro gen_frame) simp
  note only = gen_reads_only_env_path [of _ "rooted n cs" w rnd len, unfolded loc]
  note acts = gen_acts_on_env_path [of len "rooted n cs" rnd w, unfolded loc]
  show ?thesis
  proof (intro conjI allI impI)
    show "env_path (rooted n cs) = rooted n (butlast (butlast cs) @ [''.env''])" by (rule loc)
  qed (use frame only acts in blast)+
qed

theorem env_path_location_witness:
  "valid_components [''srv'', ''telegrambot'', ''tools'', ''generate_key.py'']
   \<and> (0::int) \<le> 32
   \<and> env_path script_path = ''/srv/telegrambot/.env''
   \<and> files (fst (generate_encryption_key script_path (\<lambda>i. 0) 32 busy_world))
         ''/srv/telegrambot/tools/.env''
       = files busy_world ''/srv/telegrambot/tools/.env''
   \<and> snd (generate_encryption_key script_path (\<lambda>i. 0) 32 (dotenv_world sample_env))
       = snd (generate_encryption_key script_path (\<lambda>i. 0) 32 busy_world)
   \<and> snd (generate_encryption_key script_path (\<lambda>i. 0) 32 busy_world) \<noteq> Inl IsADirectoryError
   \<and> writes (fst (generate_encryption_key script_path (\<lambda>i. 0) 32 busy_world))
       = [(''/srv/telegrambot/.env'',
           str_replace placeholder
             (''ENCRYPTION_KEY='' @ b64encode (map (\<lambda>i. 0) [0..<nat 32])) sample_env)]
   \<and> files (fst (generate_encryption_key script_path (\<lambda>i. 0) 32 busy_world))
         ''/srv/telegrambot/.env''
       = Some (File (str_replace placeholder
             (''ENCRYPTION_KEY='' @ b64encode (map (\<lambda>i. 0) [0..<nat 32])) sample_env))"
proof -
  have h: "valid_components [''srv'', ''telegrambot'', ''tools'', ''generate_key.py'']"
    by (simp add: valid_components_def)
  have l: "(0::int) \<le> 32" by simp
  note T = env_path_location [OF h, of 0 "\<lambda>i. 0" 32 busy_world, unfolded rooted_example]
  note t1 = T [THEN conjunct1]
  have ne: "''/srv/telegrambot/tools/.env'' \<noteq> ''/srv/telegrambot/.env''" by simp
  note t2 = T [THEN conjunct2, THEN conjunct1, rule_format, OF ne]
  note t3 = T [THEN conjunct2, THEN conjunct2, THEN conjunct1, rule_format,
      OF busy_world_files(2), THEN conjunct1]
  note D = T [THEN conjunct2, THEN conjunct2, THEN conjunct2, rule_format, OF l]
  note t4 = D [THEN conjunct1] D [THEN conjunct2, THEN conjunct1]
    D [THEN conjunct2, THEN conjunct2]
  have t5: "snd (generate_encryption_key script_path (\<lambda>i. 0) 32 busy_world)
      \<noteq> Inl IsADirectoryError"
    unfolding t4(1) busy_world_files(1) by simp
  have t6: "writes (fst (generate_encryption_key script_path (\<lambda>i. 0) 32 busy_world))
       = [(''/srv/telegrambot/.env'',
           str_replace placeholder
             (''ENCRYPTION_KEY='' @ b64encode (map (\<lambda>i. 0) [0..<nat 32])) sample_env)]"
    unfolding t4(2) busy_world_files
    by (simp only: option.case node.case sample_env_marked if_True append_Nil)
  have t7: "files (fst (generate_encryption_key script_path (\<lambda>i. 0) 32 busy_world))
         ''/srv/telegrambot/.env''
       = Some (File (str_replace placeholder
             (''ENCRYPTION_KEY='' @ b64encode (map (\<lambda>i. 0) [0..<nat 32])) sample_env))"
    unfolding t4(3) busy_world_files
    by (simp only: option.case node.case sample_env_marked if_True)
  show ?thesis by (intro conjI h l t1 t2 t3 t5 t6 t7)
qed

subsection \<open>What is printed and what is returned\<close>







text \<open>
  Claim C10. With length 0 the call does not fail: it returns the empty string, prints the
  key line with an empty key and the advice line, and patches the environment file as for
  any other length, with nothing behind \<open>ENCRYPTION_KEY=\<close>.
\<close>

theorem zero_length_call:
  assumes "files w (env_path script) \<noteq> Some Dir"
  shows "snd (generate_encryption_key script rnd 0 w) = Inr []
     \<and> stdout (fst (generate_encryption_key script rnd 0 w))
         = stdout w @ [key_line [], advice_line]
           @ (if \<exists>t. files w (env_path script) = Some (File t) \<and> str_contains placeholder t
              then [updated_line] else [])
     \<and> (\<forall>t. files w (env_path script) = Some (File t) \<and> str_contains placeholder t \<longrightarrow>
           files (fst (generate_encryption_key script rnd 0 w)) (env_path script)
             = Some (File (str_replace placeholder ''ENCRYPTION_KEY='' t)))
     \<and> (\<forall>t. files w (env_path script) = Some (File t) \<and> \<not> str_contains placeholder t \<longrightarrow>
           files (fst (generate_encryption_key script rnd 0 w)) = files w)
     \<and> (files w (env_path script) = None \<longrightarrow>
           files (fst (generate_encryption_key script rnd 0 w)) = files w)"
proof (cases rule: env_cases [of w "env_path script"])
  case absent
  then show ?thesis by (simp add: gen_absent print_line_def)
next
  case directory
  with assms show ?thesis by simp
next
  case (unmarked t)
  then show ?thesis by (simp add: gen_unmarked [of 0 w script t] print_line_def)
next
  case (marked t)
  then show ?thesis by (simp add: gen_patched [of 0 w script t] Let_def)
qed

theorem zero_length_call_witness:
  "files (dotenv_world sample_env) (env_path script_path) \<noteq> Some Dir
   \<and> snd (generate_encryption_key script_path (\<lambda>i. 0) 0 (dotenv_world sample_env)) = Inr []
   \<and> stdout (fst (generate_encryption_key script_path (\<lambda>i. 0) 0 (dotenv_world sample_env)))
       = [key_line [], advice_line, updated_line]
   \<and> files (fst (generate_encryption_key script_path (\<lambda>i. 0) 0 (dotenv_world sample_env)))
         (env_path script_path)
       = Some (File (str_replace placeholder ''ENCRYPTION_KEY='' sample_env))"
proof -
  have h: "files (dotenv_world sample_env) (env_path script_path) \<noteq> Some Dir"
    by (simp add: dotenv_world_file)
  have e: "\<exists>t. files (dotenv_world sample_env) (env_path script_path) = Some (File t)
        \<and> str_contains placeholder t"
    using dotenv_world_file sample_env_marked by blast
  have s: "stdout (dotenv_world sample_env) = []" by (simp add: dotenv_world_def)
  from zero_length_call [OF h, of "\<lambda>i. 0"] h e s dotenv_world_file [of sample_env] sample_env_marked
  show ?thesis by simp
qed

end
